theory Spec2Isabelle
  imports Main "HOL-Library.Sublist"
begin

section \<open>Errors\<close>

text \<open>
  Every exception the modelled code can raise is a value.  \<open>ValueError\<close> and
  \<open>OverflowError\<close> come from \<open>datetime\<close>, \<open>DataError\<close> from the relational store,
  \<open>AttributeError\<close> from an attribute read on \<open>None\<close>, and \<open>HTTPException\<close> carries the
  status code the route layer raises.
\<close>

datatype error =
    ValueError
  | OverflowError
  | DataError
  | AttributeError
  | HTTPException int

section \<open>Text\<close>

text \<open>
  A Python \<open>str\<close> is a sequence of Unicode code points: a character is the number of its
  code point.  \<open>ascii\<close> writes the \<open>str\<close> of an ASCII literal.
\<close>

type_synonym str = "nat list"

definition ascii :: "string \<Rightarrow> str" where
  "ascii s = map of_char s"

section \<open>Calendar dates (\<open>datetime.date\<close>)\<close>

text \<open>
  \<open>datetime.date\<close> of the Python standard library: a proleptic Gregorian date with
  \<open>1 \<le> year \<le> 9999\<close>.  The constructor raises \<open>ValueError\<close> outside the calendar,
  \<open>date + timedelta\<close> raises \<open>OverflowError\<close> beyond year 9999, and the difference of two
  dates is the difference of their ordinals.
\<close>

record date =
  year :: int
  month :: int
  day :: int

definition is_leap :: "int \<Rightarrow> bool" where
  "is_leap y = (y mod 4 = 0 \<and> (y mod 100 \<noteq> 0 \<or> y mod 400 = 0))"

definition days_in_month :: "int \<Rightarrow> int \<Rightarrow> int" where
  "days_in_month y m =
     (if m = 2 then (if is_leap y then 29 else 28)
      else if m = 4 \<or> m = 6 \<or> m = 9 \<or> m = 11 then 30
      else 31)"

definition MINYEAR :: int where "MINYEAR = 1"
definition MAXYEAR :: int where "MAXYEAR = 9999"

definition valid_month_day :: "int \<Rightarrow> int \<Rightarrow> int \<Rightarrow> bool" where
  "valid_month_day y m d = (1 \<le> m \<and> m \<le> 12 \<and> 1 \<le> d \<and> d \<le> days_in_month y m)"

definition valid_date :: "date \<Rightarrow> bool" where
  "valid_date dt =
     (MINYEAR \<le> year dt \<and> year dt \<le> MAXYEAR \<and> valid_month_day (year dt) (month dt) (day dt))"

text \<open>\<open>date(y, m, d)\<close> and \<open>datetime(y, m, d).date()\<close>.\<close>

definition mk_date :: "int \<Rightarrow> int \<Rightarrow> int \<Rightarrow> error + date" where
  "mk_date y m d =
     (if MINYEAR \<le> y \<and> y \<le> MAXYEAR \<and> valid_month_day y m d
      then Inr \<lparr>year = y, month = m, day = d\<rparr>
      else Inl ValueError)"

text \<open>\<open>dt.replace(month=m)\<close>.\<close>

definition replace_month :: "date \<Rightarrow> int \<Rightarrow> error + date" where
  "replace_month dt m = mk_date (year dt) m (day dt)"

definition days_before_year :: "int \<Rightarrow> int" where
  "days_before_year y =
     (let y1 = y - 1 in y1 * 365 + y1 div 4 - y1 div 100 + y1 div 400)"

definition days_before_month :: "int \<Rightarrow> int \<Rightarrow> int" where
  "days_before_month y m =
     (if m = 1 then 0 else if m = 2 then 31 else if m = 3 then 59
      else if m = 4 then 90 else if m = 5 then 120 else if m = 6 then 151
      else if m = 7 then 181 else if m = 8 then 212 else if m = 9 then 243
      else if m = 10 then 273 else if m = 11 then 304 else 334)
     + (if m > 2 \<and> is_leap y then 1 else 0)"

definition toordinal :: "date \<Rightarrow> int" where
  "toordinal dt = days_before_year (year dt) + days_before_month (year dt) (month dt) + day dt"

text \<open>\<open>(a - b).days\<close>.\<close>

definition days_between :: "date \<Rightarrow> date \<Rightarrow> int" where
  "days_between a b = toordinal a - toordinal b"

text \<open>The day after a date, and \<open>n\<close> days after it (no upper bound on the year yet).\<close>

definition next_day :: "date \<Rightarrow> date" where
  "next_day dt =
     (if day dt < days_in_month (year dt) (month dt) then dt\<lparr>day := day dt + 1\<rparr>
      else if month dt < 12 then dt\<lparr>month := month dt + 1, day := 1\<rparr>
      else \<lparr>year = year dt + 1, month = 1, day = 1\<rparr>)"

fun plus_days :: "nat \<Rightarrow> date \<Rightarrow> date" where
  "plus_days 0 dt = dt"
| "plus_days (Suc n) dt = next_day (plus_days n dt)"

text \<open>\<open>dt + timedelta(days=n)\<close> for \<open>n \<ge> 0\<close>.\<close>

definition date_add_days :: "date \<Rightarrow> nat \<Rightarrow> error + date" where
  "date_add_days dt n =
     (let r = plus_days n dt in if year r \<le> MAXYEAR then Inr r else Inl OverflowError)"

section \<open>The data model (\<open>src/database/models.py\<close>, \<open>src/schemas.py\<close>)\<close>

record Contact =
  contact_id :: int
  first_name :: str
  last_name :: str
  email :: str
  phone_number :: str
  birth_date :: date
  additional_info :: "str option"
  owner_id :: int

text \<open>\<open>ContactModel\<close>, the request body of \<open>ContactCreate\<close> and \<open>ContactUpdate\<close>.\<close>

record ContactModel =
  body_first_name :: str
  body_last_name :: str
  body_email :: str
  body_phone_number :: str
  body_birth_date :: date
  body_additional_info :: "str option"

record User =
  user_id :: int
  username :: str
  user_email :: str
  password :: str
  avatar :: "str option"
  refresh_token :: "str option"
  confirmed :: bool

text \<open>
  The relational store behind the ORM session.  \<open>contacts\<close> holds the contact table in
  the order a scan without \<open>ORDER BY\<close> yields it, which is the order in which the row
  versions were written: an insert appends a row, and an update writes the new version of
  its row at the end.  \<open>contacts_seq\<close> is the sequence that numbers new contacts.
  \<open>users\<close> is the user table; it is only ever read by the email of a row, which the
  schema keeps unique, so the place of a row in it is of no account.
\<close>

record Session =
  contacts :: "Contact list"
  contacts_seq :: int
  users :: "User list"

text \<open>
  The constraints the schema puts on the contact table: the primary key is unique, and
  no row carries a key the sequence has not issued yet.
\<close>

definition store_ok :: "Session \<Rightarrow> bool" where
  "store_ok db =
     (distinct (map contact_id (contacts db)) \<and>
      list_all (\<lambda>c. contact_id c \<le> contacts_seq db) (contacts db))"

section \<open>The birthday query (\<open>src/repository/contacts.py\<close>)\<close>

text \<open>One probe of the list comprehension:
  \<open>(datetime(y, birth.month, birth.day).date() - today).days in range(7)\<close>.\<close>

definition probe_in_range :: "date \<Rightarrow> int \<Rightarrow> Contact \<Rightarrow> error + bool" where
  "probe_in_range today y c =
     (case mk_date y (month (birth_date c)) (day (birth_date c)) of
        Inl e \<Rightarrow> Inl e
      | Inr p \<Rightarrow> Inr (0 \<le> days_between p today \<and> days_between p today < 7))"

text \<open>The condition of the comprehension; \<open>or\<close> evaluates its right operand only when
  the left one is false.\<close>

definition birthday_cond :: "date \<Rightarrow> Contact \<Rightarrow> error + bool" where
  "birthday_cond today c =
     (case probe_in_range today (year today) c of
        Inl e \<Rightarrow> Inl e
      | Inr b \<Rightarrow> if b then Inr True else probe_in_range today (year today + 1) c)"

fun filtered_birthdays :: "date \<Rightarrow> Contact list \<Rightarrow> error + Contact list" where
  "filtered_birthdays today [] = Inr []"
| "filtered_birthdays today (c # cs) =
     (case birthday_cond today c of
        Inl e \<Rightarrow> Inl e
      | Inr b \<Rightarrow>
          (case filtered_birthdays today cs of
             Inl e \<Rightarrow> Inl e
           | Inr r \<Rightarrow> Inr (if b then c # r else r)))"

text \<open>The SQL filter of the query, on one row.\<close>

definition birthday_prefilter :: "date \<Rightarrow> date \<Rightarrow> date \<Rightarrow> User \<Rightarrow> Contact \<Rightarrow> bool" where
  "birthday_prefilter today seven_days_later next_month user c =
     (owner_id c = user_id user \<and>
      ((month (birth_date c) = month today \<and>
        day (birth_date c) \<ge> day today \<and>
        day (birth_date c) < day today + 7)
       \<or>
       (month (birth_date c) = month next_month \<and>
        day (birth_date c) \<le> day seven_days_later)))"

text \<open>\<open>get_upcoming_birthdays\<close>, with \<open>datetime.now().date()\<close> as the parameter
  \<open>today\<close>.\<close>

definition get_upcoming_birthdays :: "date \<Rightarrow> User \<Rightarrow> Session \<Rightarrow> error + Contact list" where
  "get_upcoming_birthdays today user db =
     (case date_add_days today 7 of
        Inl e \<Rightarrow> Inl e
      | Inr seven_days_later \<Rightarrow>
          (case replace_month today (month today mod 12 + 1) of
             Inl e \<Rightarrow> Inl e
           | Inr next_month \<Rightarrow>
               filtered_birthdays today
                 (filter (birthday_prefilter today seven_days_later next_month user)
                    (contacts db))))"


text \<open>
  The window of the specification, on the month and the day alone: some date among
  \<open>today\<close>, \<open>today + 1\<close>, ..., \<open>today + 6\<close> has this month and this day.
\<close>

definition in_birthday_window :: "date \<Rightarrow> int \<Rightarrow> int \<Rightarrow> bool" where
  "in_birthday_window today m d =
     list_ex (\<lambda>k. month (plus_days k today) = m \<and> day (plus_days k today) = d) [0..<7]"

definition days_in_year :: "int \<Rightarrow> int" where
  "days_in_year y = (if is_leap y then 366 else 365)"

section \<open>The contact repository (\<open>src/repository/contacts.py\<close>)\<close>



text \<open>\<open>query.filter(Contact.id == contact_id, Contact.owner_id == user.id).first()\<close>.\<close>

definition get_contact :: "int \<Rightarrow> User \<Rightarrow> Session \<Rightarrow> Contact option" where
  "get_contact cid user db =
     find (\<lambda>c. contact_id c = cid \<and> owner_id c = user_id user) (contacts db)"

text \<open>The insert takes the next value of the sequence as the primary key.\<close>

definition create_contact :: "ContactModel \<Rightarrow> User \<Rightarrow> Session \<Rightarrow> Contact \<times> Session" where
  "create_contact body user db =
     (let contact = \<lparr>contact_id = contacts_seq db + 1,
                     first_name = body_first_name body,
                     last_name = body_last_name body,
                     email = body_email body,
                     phone_number = body_phone_number body,
                     birth_date = body_birth_date body,
                     additional_info = body_additional_info body,
                     owner_id = user_id user\<rparr>
      in (contact, db\<lparr>contacts := contacts db @ [contact],
                      contacts_seq := contacts_seq db + 1\<rparr>))"

text \<open>
  The commit writes the changed object back to the row with its primary key: the store
  writes the new version of the row, which a scan yields after the rows that were there.
\<close>

definition update_contact ::
  "int \<Rightarrow> ContactModel \<Rightarrow> User \<Rightarrow> Session \<Rightarrow> Contact option \<times> Session" where
  "update_contact cid body user db =
     (case find (\<lambda>c. contact_id c = cid \<and> owner_id c = user_id user) (contacts db) of
        None \<Rightarrow> (None, db)
      | Some db_contact \<Rightarrow>
          (let updated = db_contact\<lparr>first_name := body_first_name body,
                                    last_name := body_last_name body,
                                    email := body_email body,
                                    phone_number := body_phone_number body,
                                    birth_date := body_birth_date body,
                                    additional_info := body_additional_info body\<rparr>
           in (Some updated,
               db\<lparr>contacts :=
                    filter (\<lambda>r. contact_id r \<noteq> contact_id db_contact) (contacts db)
                      @ [updated]\<rparr>)))"

definition remove_contact :: "int \<Rightarrow> User \<Rightarrow> Session \<Rightarrow> Contact option \<times> Session" where
  "remove_contact cid user db =
     (case find (\<lambda>c. contact_id c = cid \<and> owner_id c = user_id user) (contacts db) of
        None \<Rightarrow> (None, db)
      | Some contact \<Rightarrow>
          (Some contact,
           db\<lparr>contacts := filter (\<lambda>r. contact_id r \<noteq> contact_id contact) (contacts db)\<rparr>))"

subsection \<open>\<open>ILIKE\<close>\<close>














subsection \<open>Insertion order\<close>






section \<open>The contact routes (\<open>src/routes/contacts.py\<close>)\<close>

definition route_create_contact ::
  "ContactModel \<Rightarrow> Session \<Rightarrow> User \<Rightarrow> (error + Contact) \<times> Session" where
  "route_create_contact contact db current_user =
     (case find (\<lambda>c. email c = body_email contact \<and> owner_id c = user_id current_user)
             (contacts db) of
        Some existing_contact \<Rightarrow> (Inl (HTTPException 400), db)
      | None \<Rightarrow>
          (case create_contact contact current_user db of (c, db') \<Rightarrow> (Inr c, db')))"

definition read_contact :: "int \<Rightarrow> Session \<Rightarrow> User \<Rightarrow> error + Contact" where
  "read_contact cid db current_user =
     (case get_contact cid current_user db of
        None \<Rightarrow> Inl (HTTPException 404)
      | Some db_contact \<Rightarrow> Inr db_contact)"

definition route_update_contact ::
  "int \<Rightarrow> ContactModel \<Rightarrow> Session \<Rightarrow> User \<Rightarrow> (error + Contact) \<times> Session" where
  "route_update_contact cid body db current_user =
     (case update_contact cid body current_user db of
        (None, db') \<Rightarrow> (Inl (HTTPException 404), db')
      | (Some db_contact, db') \<Rightarrow> (Inr db_contact, db'))"

definition delete_contact :: "int \<Rightarrow> Session \<Rightarrow> User \<Rightarrow> (error + Contact) \<times> Session" where
  "delete_contact cid db current_user =
     (case remove_contact cid current_user db of
        (None, db') \<Rightarrow> (Inl (HTTPException 404), db')
      | (Some db_contact, db') \<Rightarrow> (Inr db_contact, db'))"

section \<open>The user repository and the refresh route\<close>

text \<open>\<open>src/repository/users.py\<close>.\<close>

definition get_user_by_email :: "str \<Rightarrow> Session \<Rightarrow> User option" where
  "get_user_by_email e db = find (\<lambda>u. user_email u = e) (users db)"

definition update_token :: "User \<Rightarrow> str option \<Rightarrow> Session \<Rightarrow> Session" where
  "update_token user token db =
     db\<lparr>users := map (\<lambda>r. if user_id r = user_id user then r\<lparr>refresh_token := token\<rparr> else r)
                    (users db)\<rparr>"

record TokenModel =
  access_token :: str
  new_refresh_token :: str
  token_type :: str

text \<open>
  \<open>refresh_token\<close> of \<open>src/routes/users.py\<close>.  The token service (\<open>src/services/auth.py\<close>)
  is not part of the sources at hand; its three operations are parameters:
  \<open>decode_refresh_token\<close> yields the subject of a token or fails, and the two
  \<open>create\<close> operations issue a token for a subject.  A subject without a user makes
  \<open>user.refresh_token\<close> an attribute read on \<open>None\<close>.
\<close>

definition route_refresh_token ::
  "(str \<Rightarrow> error + str) \<Rightarrow> (str \<Rightarrow> str) \<Rightarrow> (str \<Rightarrow> str) \<Rightarrow>
   str \<Rightarrow> Session \<Rightarrow> (error + TokenModel) \<times> Session" where
  "route_refresh_token decode_refresh_token create_access_token create_refresh_token token db =
     (case decode_refresh_token token of
        Inl e \<Rightarrow> (Inl e, db)
      | Inr em \<Rightarrow>
          (case get_user_by_email em db of
             None \<Rightarrow> (Inl AttributeError, db)
           | Some user \<Rightarrow>
               if refresh_token user \<noteq> Some token
               then (Inl (HTTPException 401), update_token user None db)
               else
                 (let access = create_access_token em;
                      refresh = create_refresh_token em
                  in (Inr \<lparr>access_token = access, new_refresh_token = refresh,
                           token_type = ascii ''bearer''\<rparr>,
                      update_token user (Some refresh) db))))"

section \<open>Example data\<close>

definition alice :: User where
  "alice = \<lparr>user_id = 1, username = ascii ''alice'',
            user_email = ascii ''alice@example.com'', password = ascii ''h1'', avatar = None,
            refresh_token = Some (ascii ''r1''), confirmed = True\<rparr>"

definition bob :: User where
  "bob = \<lparr>user_id = 2, username = ascii ''bob'', user_email = ascii ''bob@example.com'',
          password = ascii ''h2'', avatar = None, refresh_token = None, confirmed = True\<rparr>"

definition contact_of :: "int \<Rightarrow> string \<Rightarrow> string \<Rightarrow> date \<Rightarrow> int \<Rightarrow> Contact" where
  "contact_of i name mail born owner =
     \<lparr>contact_id = i, first_name = ascii name, last_name = ascii ''Doe'',
      email = ascii mail, phone_number = ascii ''1234567890'', birth_date = born,
      additional_info = None, owner_id = owner\<rparr>"

definition ymd :: "int \<Rightarrow> int \<Rightarrow> int \<Rightarrow> date" where
  "ymd y m d = \<lparr>year = y, month = m, day = d\<rparr>"

definition store_of :: "Contact list \<Rightarrow> Session" where
  "store_of cs = \<lparr>contacts = cs, contacts_seq = int (length cs), users = [alice, bob]\<rparr>"

definition body_of :: "string \<Rightarrow> string \<Rightarrow> ContactModel" where
  "body_of name mail =
     \<lparr>body_first_name = ascii name, body_last_name = ascii ''Roe'',
      body_email = ascii mail, body_phone_number = ascii ''0987654321'',
      body_birth_date = \<lparr>year = 1991, month = 2, day = 2\<rparr>,
      body_additional_info = Some (ascii ''note'')\<rparr>"

definition ann :: Contact where
  "ann = contact_of 1 ''Ann'' ''ann@example.com'' (ymd 1990 6 5) 1"

definition ben :: Contact where
  "ben = contact_of 2 ''Ben'' ''ben@example.com'' (ymd 1985 12 28) 2"

definition cat :: Contact where
  "cat = contact_of 3 ''Cat'' ''cat@example.com'' (ymd 1992 2 29) 1"

definition example_store :: Session where
  "example_store = store_of [ann, ben, cat]"

text \<open>A token service for the examples: every token decodes to the email of \<open>alice\<close>.\<close>

definition decode_example :: "str \<Rightarrow> error + str" where
  "decode_example token = Inr (ascii ''alice@example.com'')"




section \<open>Ordinals of dates\<close>


lemma div_step:
  fixes y k :: int
  assumes k: "0 < k"
  shows "(y - 1) div k = y div k - (if y mod k = 0 then 1 else 0)"
proof (cases "y mod k = 0")
  case True
  have "y = k * (y div k)"
    using True mult_div_mod_eq [of k y] by simp
  then have "y - 1 = k * (y div k - 1) + (k - 1)"
    by (simp add: algebra_simps)
  then have "(y - 1) div k = y div k - 1"
    using k int_div_pos_eq [of "y - 1" k "y div k - 1" "k - 1"] by simp
  with True show ?thesis by simp
next
  case False
  have "0 \<le> y mod k" and r2: "y mod k < k"
    using k by simp_all
  with False have r1: "0 \<le> y mod k - 1" by simp
  have "y - 1 = k * (y div k) + (y mod k - 1)"
    by (simp add: algebra_simps)
  then have "(y - 1) div k = y div k"
    using r1 r2 int_div_pos_eq [of "y - 1" k "y div k" "y mod k - 1"] by simp
  with False show ?thesis by simp
qed

lemma mod_400_100: "(y::int) mod 400 = 0 \<Longrightarrow> y mod 100 = 0"
proof -
  assume "y mod 400 = 0"
  then have "400 dvd y" by (simp add: mod_eq_0_iff_dvd)
  moreover have "(100::int) dvd 400" by simp
  ultimately have "100 dvd y" using dvd_trans by blast
  then show ?thesis by (simp add: mod_eq_0_iff_dvd)
qed

lemma mod_100_4: "(y::int) mod 100 = 0 \<Longrightarrow> y mod 4 = 0"
proof -
  assume "y mod 100 = 0"
  then have "100 dvd y" by (simp add: mod_eq_0_iff_dvd)
  moreover have "(4::int) dvd 100" by simp
  ultimately have "4 dvd y" using dvd_trans by blast
  then show ?thesis by (simp add: mod_eq_0_iff_dvd)
qed

lemma days_before_year_step: "days_before_year (y + 1) = days_before_year y + days_in_year y"
proof -
  have d4: "(y - 1) div 4 = y div 4 - (if y mod 4 = 0 then 1 else 0)"
    by (rule div_step) simp
  have d100: "(y - 1) div 100 = y div 100 - (if y mod 100 = 0 then 1 else 0)"
    by (rule div_step) simp
  have d400: "(y - 1) div 400 = y div 400 - (if y mod 400 = 0 then 1 else 0)"
    by (rule div_step) simp
  have "days_before_year (y + 1) = y * 365 + y div 4 - y div 100 + y div 400"
    by (simp add: days_before_year_def)
  moreover have "days_before_year y =
      (y - 1) * 365 + (y div 4 - (if y mod 4 = 0 then 1 else 0))
        - (y div 100 - (if y mod 100 = 0 then 1 else 0))
        + (y div 400 - (if y mod 400 = 0 then 1 else 0))"
    unfolding days_before_year_def Let_def d4 d100 d400 ..
  moreover have "days_in_year y =
      365 + (if y mod 4 = 0 then 1 else 0) - (if y mod 100 = 0 then 1 else 0)
        + (if y mod 400 = 0 then 1 else 0)"
    using mod_400_100 [of y] mod_100_4 [of y]
    by (cases "y mod 4 = 0"; cases "y mod 100 = 0"; cases "y mod 400 = 0";
        simp add: days_in_year_def is_leap_def)
  ultimately show ?thesis
    by (simp add: algebra_simps)
qed


lemma month_cases:
  "1 \<le> (m::int) \<Longrightarrow> m \<le> 12 \<Longrightarrow>
   m = 1 \<or> m = 2 \<or> m = 3 \<or> m = 4 \<or> m = 5 \<or> m = 6 \<or> m = 7 \<or> m = 8 \<or> m = 9 \<or> m = 10 \<or> m = 11 \<or> m = 12"
  by arith

lemma days_before_month_step:
  assumes "1 \<le> m" "m < 12"
  shows "days_before_month y (m + 1) = days_before_month y m + days_in_month y m"
proof -
  have "m = 1 \<or> m = 2 \<or> m = 3 \<or> m = 4 \<or> m = 5 \<or> m = 6 \<or> m = 7 \<or> m = 8 \<or> m = 9
      \<or> m = 10 \<or> m = 11 \<or> m = 12"
    using assms by (intro month_cases) simp_all
  then show ?thesis
    using assms by (elim disjE) (simp_all add: days_before_month_def days_in_month_def)
qed

lemma days_before_month_last:
  "days_before_month y 12 + days_in_month y 12 = days_in_year y"
  by (simp add: days_before_month_def days_in_month_def days_in_year_def)

lemma days_in_month_ge: "28 \<le> days_in_month y m"
  by (simp add: days_in_month_def)

lemma days_in_month_le: "days_in_month y m \<le> 31"
  by (simp add: days_in_month_def)

lemma toordinal_next_day:
  assumes v: "valid_month_day (year dt) (month dt) (day dt)"
  shows "toordinal (next_day dt) = toordinal dt + 1"
proof -
  consider (a) "day dt < days_in_month (year dt) (month dt)"
    | (b) "day dt = days_in_month (year dt) (month dt)" "month dt < 12"
    | (c) "day dt = days_in_month (year dt) (month dt)" "month dt = 12"
    using v by (fastforce simp: valid_month_day_def)
  then show ?thesis
  proof cases
    case a
    then show ?thesis by (simp add: next_day_def toordinal_def)
  next
    case b
    have "1 \<le> month dt" using v by (simp add: valid_month_day_def)
    then show ?thesis
      using b days_before_month_step [of "month dt" "year dt"]
      by (simp add: next_day_def toordinal_def)
  next
    case c
    have "days_before_month (year dt + 1) 1 = 0"
      by (simp add: days_before_month_def)
    then show ?thesis
      using c days_before_month_last [of "year dt"] days_before_year_step [of "year dt"]
      by (simp add: next_day_def toordinal_def)
  qed
qed

lemma valid_next_day:
  assumes v: "valid_month_day (year dt) (month dt) (day dt)"
  shows "valid_month_day (year (next_day dt)) (month (next_day dt)) (day (next_day dt))"
proof -
  consider (a) "day dt < days_in_month (year dt) (month dt)"
    | (b) "\<not> day dt < days_in_month (year dt) (month dt)" "month dt < 12"
    | (c) "\<not> day dt < days_in_month (year dt) (month dt)" "\<not> month dt < 12"
    by blast
  then show ?thesis
  proof cases
    case a
    then show ?thesis using v by (simp add: next_day_def valid_month_day_def)
  next
    case b
    then show ?thesis
      using v days_in_month_ge [of "year dt" "month dt + 1"]
      by (simp add: next_day_def valid_month_day_def)
  next
    case c
    then show ?thesis
      using days_in_month_ge [of "year dt + 1" 1]
      by (simp add: next_day_def valid_month_day_def)
  qed
qed

lemma toordinal_plus_days:
  "valid_month_day (year dt) (month dt) (day dt) \<Longrightarrow>
   valid_month_day (year (plus_days n dt)) (month (plus_days n dt)) (day (plus_days n dt))
   \<and> toordinal (plus_days n dt) = toordinal dt + int n"
  by (induction n) (simp_all add: valid_next_day toordinal_next_day)


lemma days_in_year_pos: "0 \<le> days_in_year y"
  by (simp add: days_in_year_def)

lemma days_before_year_mono: "y \<le> y' \<Longrightarrow> days_before_year y \<le> days_before_year y'"
proof (induction y' rule: int_ge_induct)
  case base
  show ?case by simp
next
  case (step i)
  then show ?case
    using days_before_year_step [of i] days_in_year_pos [of i] by simp
qed

lemma days_before_month_mono:
  "m \<le> m' \<Longrightarrow> 1 \<le> m \<longrightarrow> m' \<le> 12 \<longrightarrow> days_before_month y m \<le> days_before_month y m'"
proof (induction m' rule: int_ge_induct)
  case base
  show ?case by simp
next
  case (step i)
  then show ?case
    using days_before_month_step [of i y] days_in_month_ge [of y i] by auto
qed

lemma day_of_year_bounds:
  assumes v: "valid_month_day y m d"
  shows "1 \<le> days_before_month y m + d" and "days_before_month y m + d \<le> days_in_year y"
proof -
  have m: "1 \<le> m" "m \<le> 12" and d: "1 \<le> d" "d \<le> days_in_month y m"
    using v by (simp_all add: valid_month_day_def)
  have "days_before_month y 1 \<le> days_before_month y m"
    using m days_before_month_mono [of 1 m y] by simp
  then show "1 \<le> days_before_month y m + d"
    using d by (simp add: days_before_month_def)
  have "days_before_month y m + days_in_month y m \<le> days_in_year y"
  proof (cases "m = 12")
    case True
    then show ?thesis using days_before_month_last [of y] by simp
  next
    case False
    then have "days_before_month y (m + 1) \<le> days_before_month y 12"
      using m days_before_month_mono [of "m + 1" 12 y] by simp
    then show ?thesis
      using False m days_before_month_step [of m y] days_before_month_last [of y]
        days_in_month_ge [of y 12] by simp
  qed
  then show "days_before_month y m + d \<le> days_in_year y"
    using d by simp
qed

lemma toordinal_less_year:
  assumes "valid_month_day (year a) (month a) (day a)"
    and "valid_month_day (year b) (month b) (day b)"
    and "year a < year b"
  shows "toordinal a < toordinal b"
proof -
  have "toordinal a \<le> days_before_year (year a) + days_in_year (year a)"
    using day_of_year_bounds(2) [OF assms(1)] by (simp add: toordinal_def)
  also have "\<dots> = days_before_year (year a + 1)"
    by (simp add: days_before_year_step)
  also have "\<dots> \<le> days_before_year (year b)"
    using assms(3) by (intro days_before_year_mono) simp
  also have "\<dots> < toordinal b"
    using day_of_year_bounds(1) [OF assms(2)] by (simp add: toordinal_def)
  finally show ?thesis .
qed

lemma toordinal_less_month:
  assumes "valid_month_day (year a) (month a) (day a)"
    and "valid_month_day (year b) (month b) (day b)"
    and "year a = year b" and "month a < month b"
  shows "toordinal a < toordinal b"
proof -
  have ma: "1 \<le> month a" and da: "day a \<le> days_in_month (year a) (month a)"
    using assms(1) by (simp_all add: valid_month_day_def)
  have mb: "month b \<le> 12" and db: "1 \<le> day b"
    using assms(2) by (simp_all add: valid_month_day_def)
  have "days_before_month (year a) (month a) + day a \<le> days_before_month (year a) (month a + 1)"
    using ma mb assms(4) da days_before_month_step [of "month a" "year a"] by simp
  also have "\<dots> \<le> days_before_month (year a) (month b)"
    using ma mb assms(4) days_before_month_mono [of "month a + 1" "month b" "year a"] by simp
  finally show ?thesis
    using db assms(3) by (simp add: toordinal_def)
qed

lemma toordinal_inj:
  assumes va: "valid_month_day (year a) (month a) (day a)"
    and vb: "valid_month_day (year b) (month b) (day b)"
    and eq: "toordinal a = toordinal b"
  shows "year a = year b \<and> month a = month b \<and> day a = day b"
proof -
  have y: "year a = year b"
    using toordinal_less_year [OF va vb] toordinal_less_year [OF vb va] eq
    by (cases "year a < year b"; cases "year b < year a") simp_all
  have m: "month a = month b"
    using toordinal_less_month [OF va vb] toordinal_less_month [OF vb va] eq y
    by (cases "month a < month b"; cases "month b < month a") simp_all
  have "day a = day b"
    using eq y m by (simp add: toordinal_def)
  with y m show ?thesis by simp
qed


lemma plus_days_small:
  assumes v: "valid_month_day (year dt) (month dt) (day dt)"
  shows "k \<le> 7 \<Longrightarrow> plus_days k dt =
     (if day dt + int k \<le> days_in_month (year dt) (month dt)
      then dt\<lparr>day := day dt + int k\<rparr>
      else if month dt < 12
      then dt\<lparr>month := month dt + 1, day := day dt + int k - days_in_month (year dt) (month dt)\<rparr>
      else \<lparr>year = year dt + 1, month = 1,
             day = day dt + int k - days_in_month (year dt) (month dt)\<rparr>)"
proof (induction k)
  case 0
  then show ?case using v by (simp add: valid_month_day_def)
next
  case (Suc k)
  have ge1: "28 \<le> days_in_month (year dt) (month dt + 1)"
    and ge2: "28 \<le> days_in_month (year dt + 1) 1"
    by (rule days_in_month_ge)+
  have le: "day dt \<le> days_in_month (year dt) (month dt)"
    using v by (simp add: valid_month_day_def)
  from Suc have k: "int k < 7" and ih: "plus_days k dt =
     (if day dt + int k \<le> days_in_month (year dt) (month dt)
      then dt\<lparr>day := day dt + int k\<rparr>
      else if month dt < 12
      then dt\<lparr>month := month dt + 1, day := day dt + int k - days_in_month (year dt) (month dt)\<rparr>
      else \<lparr>year = year dt + 1, month = 1,
             day = day dt + int k - days_in_month (year dt) (month dt)\<rparr>)"
    by simp_all
  show ?case
    using k le ge1 ge2 by (simp add: ih next_day_def)
qed


lemma in_birthday_window_iff:
  "in_birthday_window today m d \<longleftrightarrow>
     (\<exists>k<7. month (plus_days k today) = m \<and> day (plus_days k today) = d)"
  by (auto simp: in_birthday_window_def list_ex_iff)

lemma filtered_birthdays_Inr:
  "filtered_birthdays today cs = Inr r \<Longrightarrow>
     r = filter (\<lambda>c. birthday_cond today c = Inr True) cs \<and>
     (\<forall>c\<in>set cs. \<exists>b. birthday_cond today c = Inr b)"
proof (induction cs arbitrary: r)
  case Nil
  then show ?case by simp
next
  case (Cons c cs)
  from Cons.prems obtain b r' where b: "birthday_cond today c = Inr b"
    and r': "filtered_birthdays today cs = Inr r'" and r: "r = (if b then c # r' else r')"
    by (auto split: sum.splits)
  from Cons.IH [OF r'] b r show ?case by auto
qed

lemma probe_in_range_window:
  assumes v: "valid_month_day (year today) (month today) (day today)"
    and p: "probe_in_range today y c = Inr True"
  shows "in_birthday_window today (month (birth_date c)) (day (birth_date c))"
proof -
  let ?p = "\<lparr>year = y, month = month (birth_date c), day = day (birth_date c)\<rparr>"
  from p have vp: "valid_month_day y (month (birth_date c)) (day (birth_date c))"
    and lo: "0 \<le> days_between ?p today" and hi: "days_between ?p today < 7"
    by (auto simp: probe_in_range_def mk_date_def split: if_splits)
  define k where "k = nat (days_between ?p today)"
  have k: "k < 7" and ik: "int k = toordinal ?p - toordinal today"
    using lo hi by (simp_all add: k_def days_between_def)
  have "toordinal (plus_days k today) = toordinal ?p"
    using toordinal_plus_days [OF v, of k] ik by simp
  moreover have "valid_month_day (year (plus_days k today)) (month (plus_days k today))
      (day (plus_days k today))"
    using toordinal_plus_days [OF v, of k] by simp
  moreover have "valid_month_day (year ?p) (month ?p) (day ?p)"
    using vp by simp
  ultimately have "month (plus_days k today) = month ?p \<and> day (plus_days k today) = day ?p"
    using toordinal_inj [of "plus_days k today" ?p] by simp
  then show ?thesis
    using k by (auto simp: in_birthday_window_iff)
qed

lemma birthday_cond_window:
  assumes v: "valid_month_day (year today) (month today) (day today)"
    and p: "birthday_cond today c = Inr True"
  shows "in_birthday_window today (month (birth_date c)) (day (birth_date c))"
proof -
  from p have "probe_in_range today (year today) c = Inr True
      \<or> probe_in_range today (year today + 1) c = Inr True"
    by (auto simp: birthday_cond_def split: sum.splits if_splits)
  then show ?thesis
    using probe_in_range_window [OF v] by blast
qed


lemma window_birthday_cond:
  assumes v: "valid_month_day (year today) (month today) (day today)"
    and w: "in_birthday_window today (month (birth_date c)) (day (birth_date c))"
    and r: "birthday_cond today c = Inr b"
  shows "b"
proof (rule ccontr)
  assume nb: "\<not> b"
  from w obtain k where k: "k < 7"
    and m: "month (plus_days k today) = month (birth_date c)"
    and d: "day (plus_days k today) = day (birth_date c)"
    by (auto simp: in_birthday_window_iff)
  have ord: "toordinal (plus_days k today) = toordinal today + int k"
    using toordinal_plus_days [OF v, of k] by simp
  have yr: "year (plus_days k today) = year today \<or> year (plus_days k today) = year today + 1"
    using k by (simp add: plus_days_small [OF v])
  have probe: "probe_in_range today y c \<noteq> Inr False" if "year (plus_days k today) = y" for y
  proof
    assume "probe_in_range today y c = Inr False"
    then have "\<not> (0 \<le> days_between \<lparr>year = y, month = month (birth_date c),
        day = day (birth_date c)\<rparr> today
      \<and> days_between \<lparr>year = y, month = month (birth_date c), day = day (birth_date c)\<rparr> today < 7)"
      by (auto simp: probe_in_range_def mk_date_def split: if_splits)
    moreover have "toordinal \<lparr>year = y, month = month (birth_date c), day = day (birth_date c)\<rparr>
        = toordinal (plus_days k today)"
      using that m d by (simp add: toordinal_def)
    ultimately show False
      using ord k by (simp add: days_between_def)
  qed
  from r nb have "probe_in_range today (year today) c = Inr False"
    and "probe_in_range today (year today + 1) c = Inr False"
    by (auto simp: birthday_cond_def split: sum.splits if_splits)
  with probe yr show False by blast
qed

lemma window_prefilter:
  assumes v: "valid_month_day (year today) (month today) (day today)"
    and w: "in_birthday_window today (month (birth_date c)) (day (birth_date c))"
    and o: "owner_id c = user_id user"
    and s: "date_add_days today 7 = Inr seven_days_later"
    and n: "replace_month today (month today mod 12 + 1) = Inr next_month"
  shows "birthday_prefilter today seven_days_later next_month user c"
proof -
  from w obtain k where k: "k < 7"
    and m: "month (plus_days k today) = month (birth_date c)"
    and d: "day (plus_days k today) = day (birth_date c)"
    by (auto simp: in_birthday_window_iff)
  have mt: "1 \<le> month today" "month today \<le> 12"
    using v by (simp_all add: valid_month_day_def)
  have nm: "month next_month = month today mod 12 + 1"
    using n by (auto simp: replace_month_def mk_date_def split: if_splits)
  have sdl: "seven_days_later = plus_days 7 today"
    using s by (auto simp: date_add_days_def Let_def split: if_splits)
  show ?thesis
  proof (cases "day today + int k \<le> days_in_month (year today) (month today)")
    case True
    then have "month (birth_date c) = month today" "day (birth_date c) = day today + int k"
      using k m d by (simp_all add: plus_days_small [OF v])
    then show ?thesis
      using k o by (simp add: birthday_prefilter_def)
  next
    case False
    then have f7: "\<not> day today + int 7 \<le> days_in_month (year today) (month today)"
      using k by simp
    have "month (plus_days k today) = month today mod 12 + 1"
      using False k mt by (cases "month today < 12") (simp_all add: plus_days_small [OF v])
    moreover have "day (plus_days k today)
        = day today + int k - days_in_month (year today) (month today)"
      using False k by (simp add: plus_days_small [OF v])
    moreover have "day (plus_days 7 today)
        = day today + int 7 - days_in_month (year today) (month today)"
      using f7 by (simp only: plus_days_small [OF v, of 7]) simp
    ultimately show ?thesis
      using k o m d nm sdl by (simp add: birthday_prefilter_def)
  qed
qed

theorem get_upcoming_birthdays_returns:
  assumes v: "valid_date today"
    and r: "get_upcoming_birthdays today user db = Inr res"
  shows "res = filter (\<lambda>c. owner_id c = user_id user \<and>
            in_birthday_window today (month (birth_date c)) (day (birth_date c)))
          (contacts db)"
proof -
  have vm: "valid_month_day (year today) (month today) (day today)"
    using v by (simp add: valid_date_def)
  from r obtain sdl nm where s: "date_add_days today 7 = Inr sdl"
    and n: "replace_month today (month today mod 12 + 1) = Inr nm"
    and f: "filtered_birthdays today
        (filter (birthday_prefilter today sdl nm user) (contacts db)) = Inr res"
    by (auto simp: get_upcoming_birthdays_def split: sum.splits)
  have res: "res = filter (\<lambda>c. birthday_cond today c = Inr True)
        (filter (birthday_prefilter today sdl nm user) (contacts db))"
    and ok: "\<forall>c\<in>set (filter (birthday_prefilter today sdl nm user) (contacts db)).
        \<exists>b. birthday_cond today c = Inr b"
    using filtered_birthdays_Inr [OF f] by simp_all
  have "(birthday_prefilter today sdl nm user c \<and> birthday_cond today c = Inr True)
      \<longleftrightarrow> (owner_id c = user_id user \<and>
            in_birthday_window today (month (birth_date c)) (day (birth_date c)))"
    if c: "c \<in> set (contacts db)" for c
  proof
    assume "birthday_prefilter today sdl nm user c \<and> birthday_cond today c = Inr True"
    then show "owner_id c = user_id user \<and>
        in_birthday_window today (month (birth_date c)) (day (birth_date c))"
      using birthday_cond_window [OF vm] by (simp add: birthday_prefilter_def)
  next
    assume a: "owner_id c = user_id user \<and>
        in_birthday_window today (month (birth_date c)) (day (birth_date c))"
    then have pre: "birthday_prefilter today sdl nm user c"
      using window_prefilter [OF vm _ _ s n] by blast
    with ok c obtain b where b: "birthday_cond today c = Inr b" by auto
    have "b" using window_birthday_cond [OF vm _ b] a by simp
    with b have "birthday_cond today c = Inr True" by simp
    with pre show "birthday_prefilter today sdl nm user c \<and> birthday_cond today c = Inr True"
      by simp
  qed
  then have "filter (\<lambda>c. birthday_prefilter today sdl nm user c \<and> birthday_cond today c = Inr True)
        (contacts db)
      = filter (\<lambda>c. owner_id c = user_id user \<and>
            in_birthday_window today (month (birth_date c)) (day (birth_date c))) (contacts db)"
    by (intro filter_cong) simp_all
  with res show ?thesis by (simp add: conj_commute)
qed

section \<open>The window, where the birthday query returns\<close>

lemma born_today_returned:
  assumes "valid_date today"
    and "get_upcoming_birthdays today user db = Inr res"
    and "c \<in> set (contacts db)" and "owner_id c = user_id user"
    and "month (birth_date c) = month today" and "day (birth_date c) = day today"
  shows "c \<in> set res"
proof -
  have "month (plus_days 0 today) = month (birth_date c)
      \<and> day (plus_days 0 today) = day (birth_date c)"
    using assms(5,6) by simp
  then have "in_birthday_window today (month (birth_date c)) (day (birth_date c))"
    unfolding in_birthday_window_iff by (intro exI [of _ 0]) simp
  then show ?thesis
    using get_upcoming_birthdays_returns [OF assms(1,2)] assms(3,4) by simp
qed

lemma seventh_day_outside_window:
  assumes v: "valid_month_day (year today) (month today) (day today)"
  shows "\<not> in_birthday_window today (month (plus_days 7 today)) (day (plus_days 7 today))"
proof
  assume "in_birthday_window today (month (plus_days 7 today)) (day (plus_days 7 today))"
  then obtain k where k: "k < 7"
    and m: "month (plus_days k today) = month (plus_days 7 today)"
    and d: "day (plus_days k today) = day (plus_days 7 today)"
    by (auto simp: in_birthday_window_iff)
  have k7: "k \<le> 7" using k by simp
  have ge: "28 \<le> days_in_month (year today) (month today)"
    by (rule days_in_month_ge)
  have d1: "1 \<le> day today" using v by (simp add: valid_month_day_def)
  show False
    using m d k ge d1
    unfolding plus_days_small [OF v k7] plus_days_small [OF v order_refl]
    by (auto split: if_splits)
qed

lemma seven_days_out_not_returned:
  assumes "valid_date today"
    and "get_upcoming_birthdays today user db = Inr res"
    and "month (birth_date c) = month (plus_days 7 today)"
    and "day (birth_date c) = day (plus_days 7 today)"
  shows "c \<notin> set res"
proof -
  have "valid_month_day (year today) (month today) (day today)"
    using assms(1) by (simp add: valid_date_def)
  then have "\<not> in_birthday_window today (month (birth_date c)) (day (birth_date c))"
    using seventh_day_outside_window assms(3,4) by simp
  then show ?thesis
    using get_upcoming_birthdays_returns [OF assms(1,2)] by simp
qed

lemma birthday_cond_total:
  assumes "mk_date (year today) (month (birth_date c)) (day (birth_date c)) = Inr p1"
    and "mk_date (year today + 1) (month (birth_date c)) (day (birth_date c)) = Inr p2"
  shows "\<exists>b. birthday_cond today c = Inr b"
  using assms by (auto simp: birthday_cond_def probe_in_range_def)

lemma filtered_birthdays_total:
  assumes "\<forall>c\<in>set cs. \<exists>b. birthday_cond today c = Inr b"
  shows "\<exists>r. filtered_birthdays today cs = Inr r"
  using assms
proof (induction cs)
  case Nil
  then show ?case by simp
next
  case (Cons c cs)
  then obtain b r where "birthday_cond today c = Inr b" "filtered_birthdays today cs = Inr r"
    by auto
  then show ?case by simp
qed


lemma december_30_january_2:
  assumes v: "valid_date today"
    and dec: "month today = 12" "day today = 30"
    and y: "year today < MAXYEAR"
    and bd: "\<forall>x\<in>set (contacts db). valid_date (birth_date x)"
    and c: "c \<in> set (contacts db)" "owner_id c = user_id user"
      "month (birth_date c) = 1" "day (birth_date c) = 2"
  shows "\<exists>res. get_upcoming_birthdays today user db = Inr res \<and> c \<in> set res"
proof -
  have vm: "valid_month_day (year today) (month today) (day today)"
    and yr: "MINYEAR \<le> year today" "year today \<le> MAXYEAR"
    using v by (simp_all add: valid_date_def)
  have p7: "plus_days 7 today = \<lparr>year = year today + 1, month = 1, day = 6\<rparr>"
    using dec by (simp add: plus_days_small [OF vm order_refl] days_in_month_def)
  have p3: "plus_days 3 today = \<lparr>year = year today + 1, month = 1, day = 2\<rparr>"
    using dec by (simp add: plus_days_small [OF vm, of 3] days_in_month_def)
  have s: "date_add_days today 7 = Inr \<lparr>year = year today + 1, month = 1, day = 6\<rparr>"
    using y by (simp add: date_add_days_def p7)
  have n: "replace_month today (month today mod 12 + 1)
      = Inr \<lparr>year = year today, month = 1, day = 30\<rparr>"
    using dec yr
    by (simp add: replace_month_def mk_date_def valid_month_day_def days_in_month_def)
  let ?pre = "birthday_prefilter today \<lparr>year = year today + 1, month = 1, day = 6\<rparr>
      \<lparr>year = year today, month = 1, day = 30\<rparr> user"
  have "\<exists>b. birthday_cond today x = Inr b" if x: "x \<in> set (filter ?pre (contacts db))" for x
  proof -
    have vx: "1 \<le> day (birth_date x)"
      "day (birth_date x) \<le> days_in_month (year (birth_date x)) (month (birth_date x))"
      using bd x by (auto simp: valid_date_def valid_month_day_def)
    have le31: "day (birth_date x) \<le> 31"
      using vx(2) days_in_month_le [of "year (birth_date x)" "month (birth_date x)"] by simp
    have m: "month (birth_date x) = 12 \<or> month (birth_date x) = 1"
      using x dec by (auto simp: birthday_prefilter_def)
    have ok: "MINYEAR \<le> yy \<Longrightarrow> yy \<le> MAXYEAR \<Longrightarrow>
        \<exists>p. mk_date yy (month (birth_date x)) (day (birth_date x)) = Inr p" for yy
      using m vx(1) le31
      by (auto simp: mk_date_def valid_month_day_def days_in_month_def)
    obtain p1 where p1: "mk_date (year today) (month (birth_date x)) (day (birth_date x)) = Inr p1"
      using ok [of "year today"] yr by blast
    obtain p2 where p2: "mk_date (year today + 1) (month (birth_date x)) (day (birth_date x))
        = Inr p2"
      using ok [of "year today + 1"] yr y by (auto simp: MINYEAR_def)
    show ?thesis by (rule birthday_cond_total [OF p1 p2])
  qed
  then obtain res where res: "filtered_birthdays today (filter ?pre (contacts db)) = Inr res"
    using filtered_birthdays_total [of "filter ?pre (contacts db)" today] by blast
  then have r: "get_upcoming_birthdays today user db = Inr res"
    by (simp add: get_upcoming_birthdays_def s n)
  have "in_birthday_window today (month (birth_date c)) (day (birth_date c))"
    unfolding in_birthday_window_iff using c(3,4) p3 by (intro exI [of _ 3]) simp
  then have "c \<in> set res"
    using get_upcoming_birthdays_returns [OF v r] c(1,2) by simp
  with r show ?thesis by blast
qed

section \<open>Where the birthday query raises\<close>

lemma replace_month_raises:
  assumes "valid_date today"
    and "days_in_month (year today) (month today mod 12 + 1) < day today"
    and "date_add_days today 7 = Inr seven_days_later"
  shows "get_upcoming_birthdays today user db = Inl ValueError"
  using assms
  by (simp add: get_upcoming_birthdays_def replace_month_def mk_date_def valid_month_day_def)

lemma december_wraparound_example:
  "get_upcoming_birthdays (ymd 2024 12 30) alice
     (store_of [contact_of 1 ''Ann'' ''ann@example.com'' (ymd 1990 1 2) 1])
   = Inr [contact_of 1 ''Ann'' ''ann@example.com'' (ymd 1990 1 2) 1]"
  by code_simp

text \<open>
  C2: the birthday query returns the contacts of the user whose birth month and day fall
  in the seven days from today on, the contact born on today's month and day among
  them.  On 31 March 2024 the query raises \<open>ValueError\<close> instead, for a user whose contact
  was born on a 31 March: the probe \<open>today.replace(month=4)\<close> has no 31st day.
\<close>

theorem birthday_today_not_returned:
  "valid_date (ymd 2024 3 31)
   \<and> owner_id (contact_of 1 ''Ann'' ''ann@example.com'' (ymd 1990 3 31) 1) = user_id alice
   \<and> in_birthday_window (ymd 2024 3 31) 3 31
   \<and> get_upcoming_birthdays (ymd 2024 3 31) alice
        (store_of [contact_of 1 ''Ann'' ''ann@example.com'' (ymd 1990 3 31) 1])
      = Inl ValueError"
  by code_simp

text \<open>
  C3: a contact is accepted exactly when one of its two probe dates lies within seven
  days from today.  On 31 October 2024 the probe date 2 November 2024 of a contact lies
  two days ahead, and the query raises \<open>ValueError\<close> before it looks at any contact.
\<close>

theorem probe_in_window_not_accepted:
  "valid_date (ymd 2024 10 31)
   \<and> probe_in_range (ymd 2024 10 31) 2024
        (contact_of 1 ''Ann'' ''ann@example.com'' (ymd 1990 11 2) 1) = Inr True
   \<and> get_upcoming_birthdays (ymd 2024 10 31) alice
        (store_of [contact_of 1 ''Ann'' ''ann@example.com'' (ymd 1990 11 2) 1])
      = Inl ValueError"
  by code_simp

text \<open>
  C4: the birthday query returns a list for every valid date \<open>today\<close>.  It raises
  \<open>ValueError\<close> on 30 January 2024 whatever the user and the store are (February has no
  30th day), and on 25 February 2023 for a user with a contact born on a 29 February
  (2023 has no such day).
\<close>

theorem get_upcoming_birthdays_raises:
  "valid_date (ymd 2024 1 30)
   \<and> get_upcoming_birthdays (ymd 2024 1 30) user db = Inl ValueError
   \<and> valid_date (ymd 2023 2 25)
   \<and> valid_date (birth_date cat) \<and> owner_id cat = user_id alice
   \<and> get_upcoming_birthdays (ymd 2023 2 25) alice example_store = Inl ValueError"
proof -
  have "get_upcoming_birthdays (ymd 2024 1 30) user db = Inl ValueError"
    by (simp add: get_upcoming_birthdays_def ymd_def date_add_days_def replace_month_def
        mk_date_def valid_month_day_def days_in_month_def is_leap_def MINYEAR_def MAXYEAR_def
        next_day_def eval_nat_numeral)
  moreover have "valid_date (ymd 2024 1 30)" "valid_date (ymd 2023 2 25)"
    "valid_date (birth_date cat)" "owner_id cat = user_id alice"
    by code_simp+
  moreover have "get_upcoming_birthdays (ymd 2023 2 25) alice example_store = Inl ValueError"
    by code_simp
  ultimately show ?thesis by simp
qed

section \<open>The contact repository and its routes\<close>

lemma find_SomeD: "find P xs = Some x \<Longrightarrow> P x \<and> x \<in> set xs"
  by (induction xs) (auto split: if_splits)

lemma find_Some_ex: "(\<exists>x\<in>set xs. P x) \<Longrightarrow> \<exists>x. find P xs = Some x"
  by (cases "find P xs") (auto simp: find_None_iff)

lemma same_id_same_row:
  assumes "distinct (map contact_id cs)" "x \<in> set cs" "y \<in> set cs" "contact_id x = contact_id y"
  shows "x = y"
  using assms by (auto simp: distinct_map dest: inj_onD)

lemma find_append_None: "find P xs = None \<Longrightarrow> find P (xs @ ys) = find P ys"
  by (induction xs) (auto split: if_splits)

lemma find_rewritten_row:
  assumes "P c'" and "\<And>r. P r \<Longrightarrow> contact_id r = i"
  shows "find P (filter (\<lambda>r. contact_id r \<noteq> i) xs @ [c']) = Some c'"
proof -
  have "find P (filter (\<lambda>r. contact_id r \<noteq> i) xs) = None"
    using assms(2) by (auto simp: find_None_iff)
  then show ?thesis
    using assms(1) by (simp add: find_append_None)
qed

lemma filter_id_remove1:
  assumes "distinct (map contact_id xs)" "c \<in> set xs"
  shows "filter (\<lambda>r. contact_id r \<noteq> contact_id c) xs = remove1 c xs"
  using assms
proof (induction xs)
  case Nil
  then show ?case by simp
next
  case (Cons x xs)
  show ?case
  proof (cases "x = c")
    case True
    have "contact_id c \<notin> contact_id ` set xs"
      using Cons.prems(1) True by simp
    then have "\<forall>r\<in>set xs. contact_id r \<noteq> contact_id c"
      by (metis imageI)
    then have "filter (\<lambda>r. contact_id r \<noteq> contact_id c) xs = xs"
      by (simp add: filter_id_conv)
    with True show ?thesis by simp
  next
    case False
    then have "contact_id x \<noteq> contact_id c"
      using Cons.prems by (auto simp: image_iff)
    with False Cons show ?thesis by auto
  qed
qed

text \<open>
  C1: a contact of one user cannot be reached by another user.  On a store that keeps
  the primary key unique, let \<open>c\<close> be a contact owned by user \<open>a\<close>, and \<open>b\<close> a user with
  another id.  Then \<open>get_contact\<close> with the id of \<open>c\<close> returns \<open>None\<close> for \<open>b\<close>,
  \<open>update_contact\<close> and \<open>remove_contact\<close> return \<open>None\<close> and leave the store as it is, the
  read, update and delete routes answer 404, and no identifier at all makes \<open>get_contact\<close>
  return \<open>c\<close> to \<open>b\<close>.
\<close>

theorem foreign_contact_not_found:
  assumes ok: "store_ok db"
    and c: "c \<in> set (contacts db)"
    and a: "owner_id c = user_id a"
    and ab: "user_id a \<noteq> user_id b"
  shows "get_contact (contact_id c) b db = None
    \<and> read_contact (contact_id c) db b = Inl (HTTPException 404)
    \<and> update_contact (contact_id c) body b db = (None, db)
    \<and> remove_contact (contact_id c) b db = (None, db)
    \<and> route_update_contact (contact_id c) body db b = (Inl (HTTPException 404), db)
    \<and> delete_contact (contact_id c) db b = (Inl (HTTPException 404), db)
    \<and> (\<forall>cid. get_contact cid b db \<noteq> Some c)"
proof -
  have d: "distinct (map contact_id (contacts db))"
    using ok by (simp add: store_ok_def)
  have none: "find (\<lambda>x. contact_id x = contact_id c \<and> owner_id x = user_id b) (contacts db) = None"
  proof (rule ccontr)
    assume "find (\<lambda>x. contact_id x = contact_id c \<and> owner_id x = user_id b) (contacts db) \<noteq> None"
    then obtain x where "find (\<lambda>x. contact_id x = contact_id c \<and> owner_id x = user_id b)
        (contacts db) = Some x" by auto
    then have x: "x \<in> set (contacts db)" "contact_id x = contact_id c" "owner_id x = user_id b"
      using find_SomeD by fastforce+
    then have "x = c" using same_id_same_row [OF d _ c] by simp
    with x a ab show False by simp
  qed
  have "get_contact cid b db \<noteq> Some c" for cid
  proof
    assume "get_contact cid b db = Some c"
    then have "owner_id c = user_id b"
      unfolding get_contact_def using find_SomeD by fastforce
    with a ab show False by simp
  qed
  with none show ?thesis
    by (simp add: get_contact_def read_contact_def update_contact_def remove_contact_def
        route_update_contact_def delete_contact_def)
qed

text \<open>
  C5: if the store has a contact with the given id that the user owns, \<open>update_contact\<close>
  returns it with the six fields of the body in place of its own (its id and its owner
  are kept), a later \<open>get_contact\<close> finds this record, and the rows with other ids are
  untouched; if there is no such contact, it returns \<open>None\<close> and the store is unchanged.
\<close>

theorem update_contact_spec:
  "((\<exists>c\<in>set (contacts db). contact_id c = cid \<and> owner_id c = user_id user) \<longrightarrow>
      (\<exists>c' db'. update_contact cid body user db = (Some c', db')
         \<and> first_name c' = body_first_name body
         \<and> last_name c' = body_last_name body
         \<and> email c' = body_email body
         \<and> phone_number c' = body_phone_number body
         \<and> birth_date c' = body_birth_date body
         \<and> additional_info c' = body_additional_info body
         \<and> contact_id c' = cid \<and> owner_id c' = user_id user
         \<and> get_contact cid user db' = Some c'
         \<and> filter (\<lambda>r. contact_id r \<noteq> cid) (contacts db')
             = filter (\<lambda>r. contact_id r \<noteq> cid) (contacts db)))
   \<and> (\<not> (\<exists>c\<in>set (contacts db). contact_id c = cid \<and> owner_id c = user_id user) \<longrightarrow>
      update_contact cid body user db = (None, db))"
proof (intro conjI impI)
  assume "\<exists>c\<in>set (contacts db). contact_id c = cid \<and> owner_id c = user_id user"
  then obtain c where f: "find (\<lambda>c. contact_id c = cid \<and> owner_id c = user_id user) (contacts db)
      = Some c"
    using find_Some_ex [of "contacts db" "\<lambda>c. contact_id c = cid \<and> owner_id c = user_id user"]
    by blast
  then have c: "contact_id c = cid" "owner_id c = user_id user"
    using find_SomeD by fastforce+
  define c' where "c' = c\<lparr>first_name := body_first_name body,
      last_name := body_last_name body, email := body_email body,
      phone_number := body_phone_number body, birth_date := body_birth_date body,
      additional_info := body_additional_info body\<rparr>"
  define db' where "db' = db\<lparr>contacts :=
      filter (\<lambda>r. contact_id r \<noteq> contact_id c) (contacts db) @ [c']\<rparr>"
  have u: "update_contact cid body user db = (Some c', db')"
    using f by (simp add: update_contact_def Let_def c'_def db'_def)
  have p: "contact_id c' = cid \<and> owner_id c' = user_id user"
    using c by (simp add: c'_def)
  have g: "get_contact cid user db' = Some c'"
    using find_rewritten_row [of "\<lambda>c. contact_id c = cid \<and> owner_id c = user_id user" c' cid
        "contacts db"] p c
    by (simp add: get_contact_def db'_def)
  have o: "filter (\<lambda>r. contact_id r \<noteq> cid) (contacts db')
      = filter (\<lambda>r. contact_id r \<noteq> cid) (contacts db)"
    using p c by (simp add: db'_def)
  show "\<exists>c' db'. update_contact cid body user db = (Some c', db')
         \<and> first_name c' = body_first_name body
         \<and> last_name c' = body_last_name body
         \<and> email c' = body_email body
         \<and> phone_number c' = body_phone_number body
         \<and> birth_date c' = body_birth_date body
         \<and> additional_info c' = body_additional_info body
         \<and> contact_id c' = cid \<and> owner_id c' = user_id user
         \<and> get_contact cid user db' = Some c'
         \<and> filter (\<lambda>r. contact_id r \<noteq> cid) (contacts db')
             = filter (\<lambda>r. contact_id r \<noteq> cid) (contacts db)"
    using u p g o by (intro exI [of _ c'] exI [of _ db']) (simp add: c'_def)
next
  assume "\<not> (\<exists>c\<in>set (contacts db). contact_id c = cid \<and> owner_id c = user_id user)"
  then have "find (\<lambda>c. contact_id c = cid \<and> owner_id c = user_id user) (contacts db) = None"
    by (simp add: find_None_iff)
  then show "update_contact cid body user db = (None, db)"
    by (simp add: update_contact_def)
qed

text \<open>
  C6: on a store that keeps the primary key unique, if the store has a contact with the
  given id that the user owns, \<open>remove_contact\<close> returns it and takes exactly this row out
  of the table; if there is no such contact (no row with the id, or a row of another
  user), it returns \<open>None\<close> and leaves the store unchanged.
\<close>

theorem remove_contact_spec:
  assumes ok: "store_ok db"
  shows "((\<exists>c\<in>set (contacts db). contact_id c = cid \<and> owner_id c = user_id user) \<longrightarrow>
      (\<exists>c. c \<in> set (contacts db) \<and> contact_id c = cid \<and> owner_id c = user_id user
         \<and> remove_contact cid user db = (Some c, db\<lparr>contacts := remove1 c (contacts db)\<rparr>)
         \<and> c \<notin> set (remove1 c (contacts db))
         \<and> get_contact cid user (snd (remove_contact cid user db)) = None))
   \<and> (\<not> (\<exists>c\<in>set (contacts db). contact_id c = cid \<and> owner_id c = user_id user) \<longrightarrow>
      remove_contact cid user db = (None, db))"
proof (intro conjI impI)
  have d: "distinct (map contact_id (contacts db))"
    using ok by (simp add: store_ok_def)
  then have dc: "distinct (contacts db)"
    by (simp add: distinct_map)
  assume "\<exists>c\<in>set (contacts db). contact_id c = cid \<and> owner_id c = user_id user"
  then obtain c where f: "find (\<lambda>c. contact_id c = cid \<and> owner_id c = user_id user) (contacts db)
      = Some c"
    using find_Some_ex [of "contacts db" "\<lambda>c. contact_id c = cid \<and> owner_id c = user_id user"]
    by blast
  then have c: "contact_id c = cid" "owner_id c = user_id user" "c \<in> set (contacts db)"
    using find_SomeD by fastforce+
  have r: "remove_contact cid user db = (Some c, db\<lparr>contacts := remove1 c (contacts db)\<rparr>)"
    using f filter_id_remove1 [OF d c(3)] by (simp add: remove_contact_def)
  have n: "c \<notin> set (remove1 c (contacts db))"
    using dc by simp
  have "\<not> (\<exists>x. x \<in> set (remove1 c (contacts db)) \<and> contact_id x = cid \<and> owner_id x = user_id user)"
  proof
    assume "\<exists>x. x \<in> set (remove1 c (contacts db)) \<and> contact_id x = cid \<and> owner_id x = user_id user"
    then obtain x where x: "x \<in> set (remove1 c (contacts db))" "contact_id x = cid" by blast
    then have "x \<in> set (contacts db)" using dc by simp
    then have "x = c" using same_id_same_row [OF d _ c(3)] x c by simp
    with x n show False by simp
  qed
  then have g: "get_contact cid user (snd (remove_contact cid user db)) = None"
    by (simp add: r get_contact_def find_None_iff)
  show "\<exists>c. c \<in> set (contacts db) \<and> contact_id c = cid \<and> owner_id c = user_id user
         \<and> remove_contact cid user db = (Some c, db\<lparr>contacts := remove1 c (contacts db)\<rparr>)
         \<and> c \<notin> set (remove1 c (contacts db))
         \<and> get_contact cid user (snd (remove_contact cid user db)) = None"
    using c r n g by (intro exI [of _ c]) simp
next
  assume "\<not> (\<exists>c\<in>set (contacts db). contact_id c = cid \<and> owner_id c = user_id user)"
  then have "find (\<lambda>c. contact_id c = cid \<and> owner_id c = user_id user) (contacts db) = None"
    by (simp add: find_None_iff)
  then show "remove_contact cid user db = (None, db)"
    by (simp add: remove_contact_def)
qed


lemma store_ok_create: "store_ok db \<Longrightarrow> store_ok (snd (create_contact body user db))"
  by (fastforce simp: store_ok_def create_contact_def Let_def list_all_iff)

lemma store_ok_update: "store_ok db \<Longrightarrow> store_ok (snd (update_contact cid body user db))"
proof -
  assume ok: "store_ok db"
  show ?thesis
  proof (cases "find (\<lambda>c. contact_id c = cid \<and> owner_id c = user_id user) (contacts db)")
    case None
    then show ?thesis using ok by (simp add: update_contact_def)
  next
    case (Some c)
    then have le: "contact_id c \<le> contacts_seq db"
      using ok find_SomeD [OF Some] by (auto simp: store_ok_def list_all_iff)
    show ?thesis
      using ok Some le
      by (auto simp: update_contact_def Let_def store_ok_def list_all_iff distinct_map_filter)
  qed
qed

lemma store_ok_remove: "store_ok db \<Longrightarrow> store_ok (snd (remove_contact cid user db))"
  by (auto simp: store_ok_def remove_contact_def list_all_iff distinct_map_filter
      split: option.splits)

lemma store_ok_empty: "store_ok \<lparr>contacts = [], contacts_seq = 0, users = us\<rparr>"
  by (simp add: store_ok_def)

text \<open>
  C8: the create route answers 400 exactly when the requesting user already owns a
  contact with the email of the body, and the store is unchanged then; otherwise it
  returns what the repository creates.  The repository function appends the new row
  whatever the store holds.  Two users with different ids, neither owning a contact with
  the email, can both create a contact with it, one after the other.
\<close>

theorem create_contact_route_spec:
  "(fst (route_create_contact body db user) = Inl (HTTPException 400)
      \<longleftrightarrow> (\<exists>c\<in>set (contacts db). email c = body_email body \<and> owner_id c = user_id user))
   \<and> ((\<exists>c\<in>set (contacts db). email c = body_email body \<and> owner_id c = user_id user)
        \<longrightarrow> route_create_contact body db user = (Inl (HTTPException 400), db))
   \<and> (\<not> (\<exists>c\<in>set (contacts db). email c = body_email body \<and> owner_id c = user_id user)
        \<longrightarrow> route_create_contact body db user
              = (Inr (fst (create_contact body user db)), snd (create_contact body user db)))
   \<and> contacts (snd (create_contact body user db))
        = contacts db @ [fst (create_contact body user db)]
   \<and> email (fst (create_contact body user db)) = body_email body
   \<and> owner_id (fst (create_contact body user db)) = user_id user
   \<and> (user_id a \<noteq> user_id b
        \<and> \<not> (\<exists>c\<in>set (contacts db). email c = body_email body \<and> owner_id c = user_id a)
        \<and> \<not> (\<exists>c\<in>set (contacts db). email c = body_email body \<and> owner_id c = user_id b)
        \<longrightarrow> (\<exists>ca db1 cb db2.
               route_create_contact body db a = (Inr ca, db1)
             \<and> route_create_contact body db1 b = (Inr cb, db2)
             \<and> email ca = body_email body \<and> email cb = body_email body
             \<and> owner_id ca = user_id a \<and> owner_id cb = user_id b
             \<and> contacts db2 = contacts db @ [ca, cb]))"
proof -
  have route: "route_create_contact body d u =
      (if \<exists>c\<in>set (contacts d). email c = body_email body \<and> owner_id c = user_id u
       then (Inl (HTTPException 400), d)
       else (Inr (fst (create_contact body u d)), snd (create_contact body u d)))" for d u
  proof (cases "find (\<lambda>c. email c = body_email body \<and> owner_id c = user_id u) (contacts d)")
    case None
    then have "\<not> (\<exists>c\<in>set (contacts d). email c = body_email body \<and> owner_id c = user_id u)"
      by (simp add: find_None_iff)
    then show ?thesis
      by (simp add: route_create_contact_def None split: prod.splits)
  next
    case (Some x)
    then show ?thesis
      using find_SomeD [OF Some] by (auto simp: route_create_contact_def)
  qed
  have created: "contacts (snd (create_contact body u d)) = contacts d @ [fst (create_contact body u d)]
      \<and> email (fst (create_contact body u d)) = body_email body
      \<and> owner_id (fst (create_contact body u d)) = user_id u" for d u
    by (simp add: create_contact_def Let_def)
  have two: "\<exists>ca db1 cb db2.
               route_create_contact body db a = (Inr ca, db1)
             \<and> route_create_contact body db1 b = (Inr cb, db2)
             \<and> email ca = body_email body \<and> email cb = body_email body
             \<and> owner_id ca = user_id a \<and> owner_id cb = user_id b
             \<and> contacts db2 = contacts db @ [ca, cb]"
    if ab: "user_id a \<noteq> user_id b"
      and na: "\<not> (\<exists>c\<in>set (contacts db). email c = body_email body \<and> owner_id c = user_id a)"
      and nb: "\<not> (\<exists>c\<in>set (contacts db). email c = body_email body \<and> owner_id c = user_id b)"
  proof -
    let ?ca = "fst (create_contact body a db)"
    let ?db1 = "snd (create_contact body a db)"
    let ?cb = "fst (create_contact body b ?db1)"
    let ?db2 = "snd (create_contact body b ?db1)"
    have r1: "route_create_contact body db a = (Inr ?ca, ?db1)"
      using na by (simp add: route)
    have "\<not> (\<exists>c\<in>set (contacts ?db1). email c = body_email body \<and> owner_id c = user_id b)"
      using nb ab created [of a db] by auto
    then have r2: "route_create_contact body ?db1 b = (Inr ?cb, ?db2)"
      by (simp add: route)
    show ?thesis
      using r1 r2 created [of a db] created [of b ?db1]
      by (intro exI [of _ ?ca] exI [of _ ?db1] exI [of _ ?cb] exI [of _ ?db2]) simp
  qed
  show ?thesis
    using two created [of user db] by (simp add: route)
qed

lemma find_user_after_update:
  assumes "find (\<lambda>x. user_email x = e) us = Some u"
  shows "find (\<lambda>x. user_email x = e)
      (map (\<lambda>r. if user_id r = user_id u then r\<lparr>refresh_token := t\<rparr> else r) us)
    = Some (u\<lparr>refresh_token := t\<rparr>)"
  using assms by (induction us) (auto split: if_splits)

text \<open>
  C9: let the presented token decode to the email of a stored user.  If it differs from
  the refresh token stored for the user, the route fails with 401 and the stored refresh
  token becomes \<open>None\<close>; if it is the stored one, the route returns a new pair of tokens
  and the new refresh token is stored.
\<close>

theorem refresh_token_spec:
  assumes dec: "decode token = Inr e"
    and usr: "get_user_by_email e db = Some u"
  shows "(refresh_token u \<noteq> Some token \<longrightarrow>
      (\<exists>db'. route_refresh_token decode create_access create_refresh token db
            = (Inl (HTTPException 401), db')
         \<and> get_user_by_email e db' = Some (u\<lparr>refresh_token := None\<rparr>)))
   \<and> (refresh_token u = Some token \<longrightarrow>
      (\<exists>db'. route_refresh_token decode create_access create_refresh token db
            = (Inr \<lparr>access_token = create_access e, new_refresh_token = create_refresh e,
                    token_type = ascii ''bearer''\<rparr>, db')
         \<and> get_user_by_email e db' = Some (u\<lparr>refresh_token := Some (create_refresh e)\<rparr>)))"
proof -
  have "get_user_by_email e (update_token u t db) = Some (u\<lparr>refresh_token := t\<rparr>)" for t
    using usr find_user_after_update [of e "users db" u t]
    by (simp add: get_user_by_email_def update_token_def)
  then show ?thesis
    using dec usr by (simp add: route_refresh_token_def Let_def)
qed







section \<open>Search\<close>














section \<open>Instances\<close>

theorem foreign_contact_not_found_witness:
  "store_ok example_store \<and> ann \<in> set (contacts example_store)
   \<and> owner_id ann = user_id alice \<and> user_id alice \<noteq> user_id bob
   \<and> get_contact (contact_id ann) bob example_store = None
   \<and> read_contact (contact_id ann) example_store bob = Inl (HTTPException 404)
   \<and> update_contact (contact_id ann) (body_of ''Eve'' ''eve@example.com'') bob example_store
       = (None, example_store)
   \<and> remove_contact (contact_id ann) bob example_store = (None, example_store)
   \<and> delete_contact (contact_id ann) example_store bob
       = (Inl (HTTPException 404), example_store)"
proof -
  have h1: "store_ok example_store" by code_simp
  have h2: "ann \<in> set (contacts example_store)" by code_simp
  have h3: "owner_id ann = user_id alice" by code_simp
  have h4: "user_id alice \<noteq> user_id bob" by code_simp
  from foreign_contact_not_found [OF h1 h2 h3 h4, of "body_of ''Eve'' ''eve@example.com''"]
    h1 h2 h3 h4
  show ?thesis by simp
qed

theorem update_contact_spec_witness:
  "(\<exists>c\<in>set (contacts example_store). contact_id c = 1 \<and> owner_id c = user_id alice)
   \<and> (\<exists>c' db'. update_contact 1 (body_of ''Anna'' ''anna@example.com'') alice example_store
          = (Some c', db')
        \<and> first_name c' = body_first_name (body_of ''Anna'' ''anna@example.com'')
        \<and> email c' = body_email (body_of ''Anna'' ''anna@example.com'')
        \<and> get_contact 1 alice db' = Some c')
   \<and> \<not> (\<exists>c\<in>set (contacts example_store). contact_id c = 1 \<and> owner_id c = user_id bob)
   \<and> update_contact 1 (body_of ''Anna'' ''anna@example.com'') bob example_store
       = (None, example_store)"
proof -
  have h1: "\<exists>c\<in>set (contacts example_store). contact_id c = 1 \<and> owner_id c = user_id alice"
    by code_simp
  have h2: "\<not> (\<exists>c\<in>set (contacts example_store). contact_id c = 1 \<and> owner_id c = user_id bob)"
    by code_simp
  from update_contact_spec [where db = example_store and cid = 1 and user = alice
      and body = "body_of ''Anna'' ''anna@example.com''"] h1
  have a: "\<exists>c' db'. update_contact 1 (body_of ''Anna'' ''anna@example.com'') alice example_store
          = (Some c', db')
        \<and> first_name c' = body_first_name (body_of ''Anna'' ''anna@example.com'')
        \<and> email c' = body_email (body_of ''Anna'' ''anna@example.com'')
        \<and> get_contact 1 alice db' = Some c'"
    by blast
  from update_contact_spec [where db = example_store and cid = 1 and user = bob
      and body = "body_of ''Anna'' ''anna@example.com''"] h2
  have b: "update_contact 1 (body_of ''Anna'' ''anna@example.com'') bob example_store
       = (None, example_store)"
    by blast
  from h1 a h2 b show ?thesis by blast
qed

theorem remove_contact_spec_witness:
  "store_ok example_store
   \<and> (\<exists>c\<in>set (contacts example_store). contact_id c = 3 \<and> owner_id c = user_id alice)
   \<and> (\<exists>c. c \<in> set (contacts example_store) \<and> contact_id c = 3
        \<and> remove_contact 3 alice example_store
            = (Some c, example_store\<lparr>contacts := remove1 c (contacts example_store)\<rparr>))
   \<and> \<not> (\<exists>c\<in>set (contacts example_store). contact_id c = 3 \<and> owner_id c = user_id bob)
   \<and> remove_contact 3 bob example_store = (None, example_store)"
proof -
  have h0: "store_ok example_store" by code_simp
  have h1: "\<exists>c\<in>set (contacts example_store). contact_id c = 3 \<and> owner_id c = user_id alice"
    by code_simp
  have h2: "\<not> (\<exists>c\<in>set (contacts example_store). contact_id c = 3 \<and> owner_id c = user_id bob)"
    by code_simp
  from remove_contact_spec [OF h0, where cid = 3 and user = alice] h1
  have a: "\<exists>c. c \<in> set (contacts example_store) \<and> contact_id c = 3
        \<and> remove_contact 3 alice example_store
            = (Some c, example_store\<lparr>contacts := remove1 c (contacts example_store)\<rparr>)"
    by blast
  from remove_contact_spec [OF h0, where cid = 3 and user = bob] h2
  have b: "remove_contact 3 bob example_store = (None, example_store)"
    by blast
  from h0 h1 a h2 b show ?thesis by blast
qed

theorem create_contact_route_spec_witness:
  "(\<exists>c\<in>set (contacts example_store).
       email c = body_email (body_of ''Ann'' ''ann@example.com'') \<and> owner_id c = user_id alice)
   \<and> route_create_contact (body_of ''Ann'' ''ann@example.com'') example_store alice
       = (Inl (HTTPException 400), example_store)
   \<and> user_id alice \<noteq> user_id bob
   \<and> \<not> (\<exists>c\<in>set (contacts (store_of [])).
       email c = body_email (body_of ''Eve'' ''eve@example.com'') \<and> owner_id c = user_id alice)
   \<and> \<not> (\<exists>c\<in>set (contacts (store_of [])).
       email c = body_email (body_of ''Eve'' ''eve@example.com'') \<and> owner_id c = user_id bob)
   \<and> (\<exists>ca db1 cb db2.
         route_create_contact (body_of ''Eve'' ''eve@example.com'') (store_of []) alice
           = (Inr ca, db1)
       \<and> route_create_contact (body_of ''Eve'' ''eve@example.com'') db1 bob = (Inr cb, db2)
       \<and> email ca = body_email (body_of ''Eve'' ''eve@example.com'')
       \<and> email cb = body_email (body_of ''Eve'' ''eve@example.com'')
       \<and> owner_id ca = user_id alice \<and> owner_id cb = user_id bob
       \<and> contacts db2 = contacts (store_of []) @ [ca, cb])"
proof -
  have h1: "\<exists>c\<in>set (contacts example_store).
       email c = body_email (body_of ''Ann'' ''ann@example.com'') \<and> owner_id c = user_id alice"
    by code_simp
  have h2: "user_id alice \<noteq> user_id bob" by code_simp
  have h3: "\<not> (\<exists>c\<in>set (contacts (store_of [])).
       email c = body_email (body_of ''Eve'' ''eve@example.com'') \<and> owner_id c = user_id alice)"
    by code_simp
  have h4: "\<not> (\<exists>c\<in>set (contacts (store_of [])).
       email c = body_email (body_of ''Eve'' ''eve@example.com'') \<and> owner_id c = user_id bob)"
    by code_simp
  from create_contact_route_spec [where db = example_store and user = alice
      and body = "body_of ''Ann'' ''ann@example.com''"] h1
  have a: "route_create_contact (body_of ''Ann'' ''ann@example.com'') example_store alice
       = (Inl (HTTPException 400), example_store)"
    by blast
  from create_contact_route_spec [where db = "store_of []" and a = alice and b = bob
      and body = "body_of ''Eve'' ''eve@example.com''"] h2 h3 h4
  have b: "\<exists>ca db1 cb db2.
         route_create_contact (body_of ''Eve'' ''eve@example.com'') (store_of []) alice
           = (Inr ca, db1)
       \<and> route_create_contact (body_of ''Eve'' ''eve@example.com'') db1 bob = (Inr cb, db2)
       \<and> email ca = body_email (body_of ''Eve'' ''eve@example.com'')
       \<and> email cb = body_email (body_of ''Eve'' ''eve@example.com'')
       \<and> owner_id ca = user_id alice \<and> owner_id cb = user_id bob
       \<and> contacts db2 = contacts (store_of []) @ [ca, cb]"
    by blast
  from h1 a h2 h3 h4 b show ?thesis by blast
qed

theorem refresh_token_spec_witness:
  "get_user_by_email (ascii ''alice@example.com'') example_store = Some alice
   \<and> refresh_token alice \<noteq> Some (ascii ''stale'')
   \<and> (\<exists>db'. route_refresh_token decode_example (\<lambda>e. ascii ''a2'') (\<lambda>e. ascii ''r2'')
                (ascii ''stale'') example_store = (Inl (HTTPException 401), db')
          \<and> get_user_by_email (ascii ''alice@example.com'') db' = Some (alice\<lparr>refresh_token := None\<rparr>))
   \<and> refresh_token alice = Some (ascii ''r1'')
   \<and> (\<exists>db'. route_refresh_token decode_example (\<lambda>e. ascii ''a2'') (\<lambda>e. ascii ''r2'')
                (ascii ''r1'') example_store
              = (Inr \<lparr>access_token = ascii ''a2'', new_refresh_token = ascii ''r2'',
                      token_type = ascii ''bearer''\<rparr>, db')
          \<and> get_user_by_email (ascii ''alice@example.com'') db'
              = Some (alice\<lparr>refresh_token := Some (ascii ''r2'')\<rparr>))"
proof -
  have h1: "decode_example tok = Inr (ascii ''alice@example.com'')" for tok
    by (simp add: decode_example_def)
  have h2: "get_user_by_email (ascii ''alice@example.com'') example_store = Some alice"
    by code_simp
  have h3: "refresh_token alice \<noteq> Some (ascii ''stale'')" by code_simp
  have h4: "refresh_token alice = Some (ascii ''r1'')" by code_simp
  from refresh_token_spec [where decode = decode_example and token = "ascii ''stale''"
      and create_access = "\<lambda>e. ascii ''a2''" and create_refresh = "\<lambda>e. ascii ''r2''", OF h1 h2] h3
  have a: "\<exists>db'. route_refresh_token decode_example (\<lambda>e. ascii ''a2'') (\<lambda>e. ascii ''r2'')
                (ascii ''stale'') example_store = (Inl (HTTPException 401), db')
          \<and> get_user_by_email (ascii ''alice@example.com'') db' = Some (alice\<lparr>refresh_token := None\<rparr>)"
    by blast
  from refresh_token_spec [where decode = decode_example and token = "ascii ''r1''"
      and create_access = "\<lambda>e. ascii ''a2''" and create_refresh = "\<lambda>e. ascii ''r2''", OF h1 h2] h4
  have b: "\<exists>db'. route_refresh_token decode_example (\<lambda>e. ascii ''a2'') (\<lambda>e. ascii ''r2'')
                (ascii ''r1'') example_store
              = (Inr \<lparr>access_token = ascii ''a2'', new_refresh_token = ascii ''r2'',
                      token_type = ascii ''bearer''\<rparr>, db')
          \<and> get_user_by_email (ascii ''alice@example.com'') db'
              = Some (alice\<lparr>refresh_token := Some (ascii ''r2'')\<rparr>)"
    by blast
  from h2 h3 a h4 b show ?thesis by blast
qed





end
